theory Spec2Isabelle
  imports Main "HOL-Library.Word"
begin

section \<open>CSVWriter.h of DRAMSim2: the indexed-name builder and the CSV writer\<close>

text \<open>
  The header \<^verbatim>\<open>CSVWriter.h\<close> holds three overloads of \<^verbatim>\<open>indexStr\<close> and the class
  \<^verbatim>\<open>CSVWriter\<close>. A C string is modelled by the bytes before its terminator, an
  \<^verbatim>\<open>unsigned\<close> by a 32-bit word, \<^verbatim>\<open>long\<close> and \<^verbatim>\<open>uint64_t\<close> by 64-bit words
  (the LP64 data model), and a floating-point value by its IEEE bit pattern. A call that
  may not return has an \<open>option\<close> result, and \<open>None\<close> says that it does not return.
\<close>

subsection \<open>Constants of the header\<close>

definition MAX_TMP_STR :: nat where
  "MAX_TMP_STR = 64"

text \<open>Length of a two digit subscript: \<^verbatim>\<open>[xx]\<close>.\<close>

definition SINGLE_INDEX_LEN :: nat where
  "SINGLE_INDEX_LEN = 4"

type_synonym unsigned = "32 word"

subsection \<open>The C library calls the header makes\<close>

text \<open>The conversion \<^verbatim>\<open>%u\<close>, and the stream's decimal rendering of a nonnegative integer.\<close>

fun dec :: "nat \<Rightarrow> string" where
  "dec n = (if n < 10 then [''0123456789'' ! n]
            else dec (n div 10) @ [''0123456789'' ! (n mod 10)])"

declare dec.simps [simp del]

text \<open>
  \<^verbatim>\<open>snprintf(buf, n, ...)\<close> stores at most \<open>n - 1\<close> characters of the formatted
  text and a terminator; the argument \<open>s\<close> is the formatted text.
\<close>

definition snprintf :: "nat \<Rightarrow> string \<Rightarrow> string" where
  "snprintf n s = take (n - 1) s"

text \<open>\<^verbatim>\<open>strndup(s, n)\<close> copies at most \<open>n\<close> characters of \<open>s\<close>.\<close>

definition strndup :: "string \<Rightarrow> nat \<Rightarrow> string" where
  "strndup s n = take n s"

text \<open>How a call that does not return ends the process.\<close>

datatype exit_kind = Abort | Exit int

text \<open>
  Modelled from the spec: the macro \<^verbatim>\<open>ERROR\<close> is not defined in this header. The spec
  says that the name builder reports its fatal error on the diagnostic channel; the model
  takes the text handed to the macro as what is reported there.
\<close>

definition ERROR :: "string \<Rightarrow> string" where
  "ERROR msg = msg"

text \<open>
  The result of a call that may end the process: \<open>Inl (d, k)\<close> when the process ends in
  the way \<open>k\<close> after \<open>d\<close> was reported on the diagnostic channel, \<open>Inr s\<close> when the
  call returns \<open>s\<close>.
\<close>

type_synonym 'a result = "(string \<times> exit_kind) + 'a"

subsection \<open>indexStr\<close>

text \<open>Single index.\<close>

definition indexStr1 :: "string \<Rightarrow> unsigned \<Rightarrow> string result" where
  "indexStr1 baseName channel =
     (if length baseName + SINGLE_INDEX_LEN > MAX_TMP_STR
      then Inl (ERROR ''Your string is too long for the stats, increase MAX_TMP_STR'', Abort)
      else Inr (strndup (snprintf MAX_TMP_STR
                  (baseName @ ''['' @ dec (unat channel) @ '']'')) MAX_TMP_STR))"

text \<open>Two indices.\<close>

definition indexStr2 :: "string \<Rightarrow> unsigned \<Rightarrow> unsigned \<Rightarrow> string result" where
  "indexStr2 baseName channel rank =
     (if length baseName + 2 * SINGLE_INDEX_LEN > MAX_TMP_STR
      then Inl (ERROR ''Your string is too long for the stats, increase MAX_TMP_STR'', Abort)
      else Inr (strndup (snprintf MAX_TMP_STR
                  (baseName @ ''['' @ dec (unat channel) @ ''][''
                     @ dec (unat rank) @ '']'')) MAX_TMP_STR))"

text \<open>Three indices; this overload leaves through \<^verbatim>\<open>exit(-1)\<close>.\<close>

definition indexStr3 :: "string \<Rightarrow> unsigned \<Rightarrow> unsigned \<Rightarrow> unsigned \<Rightarrow> string result" where
  "indexStr3 baseName channel rank bank =
     (if length baseName + 3 * SINGLE_INDEX_LEN > MAX_TMP_STR
      then Inl (ERROR ''Your string is too long for the stats, increase MAX_TMP_STR'', Exit (- 1))
      else Inr (strndup (snprintf MAX_TMP_STR
                  (baseName @ ''['' @ dec (unat channel) @ ''][''
                     @ dec (unat rank) @ ''][''
                     @ dec (unat bank) @ '']'')) MAX_TMP_STR))"

subsection \<open>The output stream\<close>

text \<open>
  The writer holds a reference to a \<^verbatim>\<open>std::ostream\<close>. The model keeps the text that
  has left the stream's buffer and the text still in it, so that a flush can be observed.
\<close>

record ostream =
  flushed :: string
  pending :: string

definition put :: "string \<Rightarrow> ostream \<Rightarrow> ostream" where
  "put s os = os\<lparr>pending := pending os @ s\<rparr>"

definition flush :: "ostream \<Rightarrow> ostream" where
  "flush os = \<lparr>flushed = flushed os @ pending os, pending = []\<rparr>"

text \<open>\<^verbatim>\<open>std::endl\<close> writes a newline and flushes.\<close>

definition endl :: "ostream \<Rightarrow> ostream" where
  "endl os = flush (put [CHR 0x0A] os)"

text \<open>Everything written to the stream so far, flushed or not.\<close>

definition contents :: "ostream \<Rightarrow> string" where
  "contents os = flushed os @ pending os"

subsection \<open>The values that can be inserted\<close>

text \<open>One constructor for each instance of the macro \<^verbatim>\<open>ADD_TYPE\<close>.\<close>

datatype val =
    V_int "32 word"
  | V_unsigned "32 word"
  | V_long "64 word"
  | V_uint64 "64 word"
  | V_float "32 word"
  | V_double "64 word"

text \<open>
  The stream's rendering of the two floating-point types belongs to the C++ library and
  is a parameter of the model.
\<close>

record float_format =
  show_float :: "32 word \<Rightarrow> string"
  show_double :: "64 word \<Rightarrow> string"

definition dec_int :: "int \<Rightarrow> string" where
  "dec_int i = (if i < 0 then ''-'' @ dec (nat (- i)) else dec (nat i))"

text \<open>
  Modelled from the spec: \<^verbatim>\<open>operator<<\<close> of the stream is library code; the spec says
  that a value is written in its decimal text representation, which is what a stream with
  default flags does for the integer types.
\<close>

fun render :: "float_format \<Rightarrow> val \<Rightarrow> string" where
  "render f (V_int w) = dec_int (sint w)"
| "render f (V_unsigned w) = dec (unat w)"
| "render f (V_long w) = dec_int (sint w)"
| "render f (V_uint64 w) = dec (unat w)"
| "render f (V_float b) = show_float f b"
| "render f (V_double b) = show_double f b"

subsection \<open>class CSVWriter\<close>

text \<open>
  The member \<^verbatim>\<open>output\<close> is called \<open>output_stream\<close> here, since \<^verbatim>\<open>output\<close>
  is a reserved word of the theory language. The stream is not owned by the writer; the
  model keeps its state in the writer, which has the only access to it during a call.
\<close>

record CSVWriter =
  output_stream :: ostream
  fieldNames :: "string list"
  finalized :: bool
  idx :: unsigned

text \<open>The constructor.\<close>

definition CSVWriter_new :: "ostream \<Rightarrow> CSVWriter" where
  "CSVWriter_new os = \<lparr>output_stream = os, fieldNames = [], finalized = False, idx = 0\<rparr>"

text \<open>
  The loop of \<^verbatim>\<open>finalize\<close> over the field names. Its counter \<open>i\<close> is an
  \<^verbatim>\<open>unsigned\<close> and is compared with the 64-bit \<^verbatim>\<open>fieldNames.size()\<close>; the
  increment wraps around, so the loop need not end.
\<close>

partial_function (option)
  write_names :: "string list \<Rightarrow> unsigned \<Rightarrow> ostream \<Rightarrow> ostream option"
where
  "write_names names i os =
     (if unat i < length names
      then write_names names (i + 1) (put '','' (put (names ! unat i) os))
      else Some os)"

text \<open>The warning that \<^verbatim>\<open>finalize\<close> prints with \<^verbatim>\<open>printf\<close>, on the standard output.\<close>

definition mismatch_warning :: "unsigned \<Rightarrow> nat \<Rightarrow> string" where
  "mismatch_warning i n =
     '' Number of fields doesn't match values (fields='' @ dec (unat i)
       @ '', values='' @ dec (unat (of_nat n :: unsigned))
       @ ''), check each value has a field name before it'' @ [CHR 0x0A]"

text \<open>
  \<^verbatim>\<open>finalize\<close> returns what it printed on the standard output together with the
  updated writer, when it returns.
\<close>

definition finalize :: "CSVWriter \<Rightarrow> (string \<times> CSVWriter) option" where
  "finalize w =
     (if \<not> finalized w
      then (case write_names (fieldNames w) 0 (output_stream w) of
              None \<Rightarrow> None
            | Some os \<Rightarrow> Some ([], w\<lparr>output_stream := flush (endl os), finalized := True\<rparr>))
      else Some ((if unat (idx w) < length (fieldNames w)
                  then mismatch_warning (idx w) (length (fieldNames w)) else []),
                 w\<lparr>idx := 0, output_stream := endl (output_stream w)\<rparr>))"

text \<open>Insertion operators for field names: \<^verbatim>\<open>const char *\<close> and \<^verbatim>\<open>const string &\<close>.\<close>

definition insert_cstr :: "string \<Rightarrow> CSVWriter \<Rightarrow> CSVWriter" where
  "insert_cstr name w =
     (if \<not> finalized w then w\<lparr>fieldNames := fieldNames w @ [name]\<rparr> else w)"

definition insert_string :: "string \<Rightarrow> CSVWriter \<Rightarrow> CSVWriter" where
  "insert_string name w =
     (if \<not> finalized w then w\<lparr>fieldNames := fieldNames w @ [name]\<rparr> else w)"

text \<open>Insertion operators for values: the body of \<^verbatim>\<open>ADD_TYPE\<close>.\<close>

definition insert_value :: "float_format \<Rightarrow> val \<Rightarrow> CSVWriter \<Rightarrow> CSVWriter" where
  "insert_value f v w =
     (if finalized w
      then w\<lparr>output_stream := put '','' (put (render f v) (output_stream w)),
             idx := idx w + 1\<rparr>
      else w)"

subsection \<open>Sequences of calls on one writer\<close>

text \<open>
  A client of the class makes a sequence of calls. The state between two calls is the
  text on the standard output and the writer. A sequence returns no state when one of its
  calls does not return.
\<close>

datatype call = Ins_cstr string | Ins_string string | Ins_value val | Finalize

fun step :: "float_format \<Rightarrow> string \<times> CSVWriter \<Rightarrow> call \<Rightarrow> (string \<times> CSVWriter) option" where
  "step f (out, w) (Ins_cstr name) = Some (out, insert_cstr name w)"
| "step f (out, w) (Ins_string name) = Some (out, insert_string name w)"
| "step f (out, w) (Ins_value v) = Some (out, insert_value f v w)"
| "step f (out, w) Finalize =
     (case finalize w of None \<Rightarrow> None | Some (d, w') \<Rightarrow> Some (out @ d, w'))"

fun run :: "float_format \<Rightarrow> call list \<Rightarrow> string \<times> CSVWriter \<Rightarrow> (string \<times> CSVWriter) option" where
  "run f [] st = Some st"
| "run f (c # cs) st = (case step f st c of None \<Rightarrow> None | Some st' \<Rightarrow> run f cs st')"

text \<open>The name a name insertion carries.\<close>

fun name_of :: "call \<Rightarrow> string option" where
  "name_of (Ins_cstr name) = Some name"
| "name_of (Ins_string name) = Some name"
| "name_of (Ins_value v) = None"
| "name_of Finalize = None"

fun is_name :: "call \<Rightarrow> bool" where
  "is_name (Ins_cstr name) = True"
| "is_name (Ins_string name) = True"
| "is_name (Ins_value v) = False"
| "is_name Finalize = False"

fun is_value :: "call \<Rightarrow> bool" where
  "is_value (Ins_value v) = True"
| "is_value (Ins_cstr name) = False"
| "is_value (Ins_string name) = False"
| "is_value Finalize = False"

text \<open>
  The number of value insertions of a call sequence that come after its last
  \<^verbatim>\<open>finalize\<close>: the calls are read from the end up to the first \<^verbatim>\<open>finalize\<close> met.
\<close>

definition values_since_close :: "call list \<Rightarrow> nat" where
  "values_since_close cs =
     length (filter is_value (takeWhile (\<lambda>c. c \<noteq> Finalize) (rev cs)))"

subsection \<open>Sample inputs\<close>

text \<open>
  A rendering of the floating-point types that prints the doubles 1.5 and 2.5 (bit patterns
  \<open>0x3FF8000000000000\<close> and \<open>0x4004000000000000\<close>) as the C++ library does; it is used
  where a statement is evaluated on a concrete input.
\<close>

definition sample_format :: float_format where
  "sample_format =
     \<lparr>show_float = (\<lambda>b. ''0''),
      show_double = (\<lambda>b. if b = 0x3FF8000000000000 then ''1.5''
                          else if b = 0x4004000000000000 then ''2.5'' else ''0'')\<rparr>"

definition empty_stream :: ostream where
  "empty_stream = \<lparr>flushed = [], pending = []\<rparr>"

text \<open>A writer in the state reached after a header with the single field \<open>a\<close>.\<close>

definition committed_writer :: CSVWriter where
  "committed_writer =
     \<lparr>output_stream = \<lparr>flushed = ''a,\<newline>'', pending = []\<rparr>,
      fieldNames = [''a''], finalized = True, idx = 0\<rparr>"

text \<open>A writer that has collected 4294967296 field names and is not yet committed.\<close>

definition crowded_writer :: CSVWriter where
  "crowded_writer =
     \<lparr>output_stream = empty_stream, fieldNames = replicate 4294967296 ''a'',
      finalized = False, idx = 0\<rparr>"

section \<open>Properties\<close>

subsection \<open>Auxiliary facts\<close>

lemma dec_digit: "n < 10 \<Longrightarrow> dec n = [''0123456789'' ! n]"
  by (simp add: dec.simps)

lemma dec_15: "dec 15 = ''15''"
  by (simp add: dec.simps)

lemma dec_25: "dec 25 = ''25''"
  by (simp add: dec.simps)

text \<open>The loop returns only when there are fewer than \<open>2 ^ 32\<close> names.\<close>

lemma write_names_Some_bound:
  assumes "write_names names i os = Some y"
  shows "length names < 2 ^ 32"
proof (rule write_names.raw_induct
    [where P = "\<lambda>names i os y. length names < 2 ^ 32", OF _ assms])
  fix f :: "string list \<Rightarrow> unsigned \<Rightarrow> ostream \<Rightarrow> ostream option"
  fix names i os y
  assume IH: "\<And>names i os y. f names i os = Some y \<Longrightarrow> length names < 2 ^ 32"
  assume eq: "(if unat i < length names
      then f names (i + 1) (put '','' (put (names ! unat i) os)) else Some os) = Some y"
  show "length names < 2 ^ 32"
  proof (cases "unat i < length names")
    case True
    with eq have "f names (i + 1) (put '','' (put (names ! unat i) os)) = Some y"
      by simp
    then show ?thesis by (rule IH)
  next
    case False
    have "unat i < 2 ^ 32"
      using unsigned_less [of i] by simp
    with False show ?thesis by simp
  qed
qed

lemma write_names_hangs:
  "2 ^ 32 \<le> length names \<Longrightarrow> write_names names i os = None"
proof (cases "write_names names i os")
  case None
  then show ?thesis .
next
  case (Some y)
  then have "length names < 2 ^ 32" by (rule write_names_Some_bound)
  moreover assume "2 ^ 32 \<le> length names"
  ultimately show ?thesis by simp
qed

text \<open>With fewer names the loop started at \<open>k\<close> writes the names from \<open>k\<close> on.\<close>

lemma write_names_from:
  "length names < 2 ^ 32 \<Longrightarrow> k \<le> length names \<Longrightarrow>
     write_names names (of_nat k) os =
       Some (os\<lparr>pending := pending os @ concat (map (\<lambda>n. n @ '','') (drop k names))\<rparr>)"
proof (induction "length names - k" arbitrary: k os)
  case 0
  then have k: "k = length names" by simp
  have "unat (of_nat k :: unsigned) = k"
    using 0 k by (simp add: unat_of_nat)
  then show ?case
    using k by (subst write_names.simps) simp
next
  case (Suc d)
  then have lt: "k < length names" by simp
  have u: "unat (of_nat k :: unsigned) = k"
    using Suc.prems lt by (simp add: unat_of_nat)
  have d: "d = length names - Suc k"
    using Suc.hyps(2) by simp
  have s: "(of_nat (Suc k) :: unsigned) = of_nat k + 1"
    by simp
  have "write_names names (of_nat k + 1) (put '','' (put (names ! k) os)) =
      Some ((put '','' (put (names ! k) os))\<lparr>pending := pending (put '','' (put (names ! k) os))
          @ concat (map (\<lambda>n. n @ '','') (drop (Suc k) names))\<rparr>)"
    using Suc.prems lt unfolding s [symmetric] by (intro Suc.hyps(1) [OF d]) simp_all
  moreover have "drop k names = names ! k # drop (Suc k) names"
    using lt by (simp add: Cons_nth_drop_Suc)
  ultimately show ?case
    using lt u by (subst write_names.simps) (simp add: put_def del: of_nat_Suc)
qed

lemma write_names_all:
  "length names < 2 ^ 32 \<Longrightarrow>
     write_names names 0 os =
       Some (os\<lparr>pending := pending os @ concat (map (\<lambda>n. n @ '','') names)\<rparr>)"
  using write_names_from [of names 0 os] by simp

text \<open>The three ways \<^verbatim>\<open>finalize\<close> can go.\<close>

lemma finalize_header:
  "\<not> finalized w \<Longrightarrow> length (fieldNames w) < 2 ^ 32 \<Longrightarrow>
     finalize w =
       Some ([], w\<lparr>output_stream :=
                     \<lparr>flushed = contents (output_stream w)
                          @ concat (map (\<lambda>n. n @ '','') (fieldNames w)) @ [CHR 0x0A],
                      pending = []\<rparr>,
                   finalized := True\<rparr>)"
  by (simp add: finalize_def write_names_all endl_def flush_def put_def contents_def)

lemma finalize_hangs:
  "\<not> finalized w \<Longrightarrow> 2 ^ 32 \<le> length (fieldNames w) \<Longrightarrow> finalize w = None"
  by (simp add: finalize_def write_names_hangs)

text \<open>
  Once the header is committed \<^verbatim>\<open>finalize\<close> returns: it warns exactly when the counter
  is below the number of field names, resets the counter, and ends the line.
\<close>

lemma finalize_committed:
  "finalized w \<Longrightarrow>
     finalize w =
       Some ((if unat (idx w) < length (fieldNames w)
              then mismatch_warning (idx w) (length (fieldNames w)) else []),
             w\<lparr>idx := 0,
               output_stream :=
                 \<lparr>flushed = contents (output_stream w) @ [CHR 0x0A], pending = []\<rparr>\<rparr>)"
  by (simp add: finalize_def endl_def flush_def put_def contents_def)

lemma finalize_Some:
  "finalize w = Some (d, w') \<Longrightarrow>
     finalized w' \<and> fieldNames w' = fieldNames w
       \<and> idx w' = (if finalized w then 0 else idx w)"
  by (auto simp: finalize_def split: if_splits option.splits)

lemma run_snoc:
  "run f (cs @ [c]) st = (case run f cs st of None \<Rightarrow> None | Some st' \<Rightarrow> step f st' c)"
  by (induction cs arbitrary: st) (simp_all split: option.splits)

text \<open>Name insertions before the first \<^verbatim>\<open>finalize\<close> append their names and do nothing else.\<close>

lemma run_names:
  "map name_of cs = map Some ns \<Longrightarrow> \<not> finalized w \<Longrightarrow>
     run f cs (out, w) = Some (out, w\<lparr>fieldNames := fieldNames w @ ns\<rparr>)"
proof (induction cs arbitrary: w ns)
  case Nil
  then show ?case by simp
next
  case (Cons c cs)
  from Cons.prems(1) obtain n ms where ns: "ns = n # ms" and c: "name_of c = Some n"
    and rest: "map name_of cs = map Some ms"
    by (cases ns) auto
  from c have stp: "step f (out, w) c = Some (out, w\<lparr>fieldNames := fieldNames w @ [n]\<rparr>)"
    using Cons.prems(2) by (cases c) (simp_all add: insert_cstr_def insert_string_def)
  have "\<not> finalized (w\<lparr>fieldNames := fieldNames w @ [n]\<rparr>)"
    using Cons.prems(2) by simp
  with rest have "run f cs (out, w\<lparr>fieldNames := fieldNames w @ [n]\<rparr>) =
      Some (out, w\<lparr>fieldNames := fieldNames w @ [n]\<rparr>
              \<lparr>fieldNames := fieldNames (w\<lparr>fieldNames := fieldNames w @ [n]\<rparr>) @ ms\<rparr>)"
    by (rule Cons.IH)
  then show ?case
    by (simp add: stp ns)
qed

text \<open>What one call that returns does to the flag, the counter and the field names.\<close>

lemma step_finalized:
  "step f st c = Some st' \<Longrightarrow> finalized (snd st') = (finalized (snd st) \<or> c = Finalize)"
  by (cases st; cases c)
    (auto simp: insert_cstr_def insert_string_def insert_value_def
      split: option.splits if_splits dest: finalize_Some)

lemma step_fieldNames:
  "step f st c = Some st' \<Longrightarrow> finalized (snd st) \<Longrightarrow>
     fieldNames (snd st') = fieldNames (snd st)"
  by (cases st; cases c)
    (auto simp: insert_cstr_def insert_string_def insert_value_def
      split: option.splits if_splits dest: finalize_Some)

lemma step_idx:
  "step f st c = Some st' \<Longrightarrow>
     idx (snd st') =
       (if \<not> finalized (snd st) then idx (snd st)
        else if c = Finalize then 0
        else if is_value c then idx (snd st) + 1 else idx (snd st))"
  by (cases st; cases c)
    (auto simp: insert_cstr_def insert_string_def insert_value_def
      split: option.splits if_splits dest: finalize_Some)

lemma step_committed:
  "finalized (snd st) \<Longrightarrow> \<exists>st'. step f st c = Some st'"
  by (cases st; cases c) (simp_all add: finalize_committed)

lemma run_finalized:
  "run f cs st = Some st' \<Longrightarrow>
     finalized (snd st') = (finalized (snd st) \<or> Finalize \<in> set cs)"
proof (induction cs arbitrary: st)
  case Nil
  then show ?case by simp
next
  case (Cons c cs)
  from Cons.prems obtain st1 where s1: "step f st c = Some st1" and r: "run f cs st1 = Some st'"
    by (auto split: option.splits)
  from r have "finalized (snd st') = (finalized (snd st1) \<or> Finalize \<in> set cs)"
    by (rule Cons.IH)
  with step_finalized [OF s1] show ?case by auto
qed

text \<open>Once the header is committed every sequence of calls returns.\<close>

lemma run_committed:
  "finalized (snd st) \<Longrightarrow>
     \<exists>st'. run f cs st = Some st' \<and> finalized (snd st')
       \<and> fieldNames (snd st') = fieldNames (snd st)"
proof (induction cs arbitrary: st)
  case Nil
  then show ?case by simp
next
  case (Cons c cs)
  from step_committed [OF Cons.prems] obtain st1 where s1: "step f st c = Some st1"
    by blast
  have f1: "finalized (snd st1)"
    using step_finalized [OF s1] Cons.prems by simp
  have n1: "fieldNames (snd st1) = fieldNames (snd st)"
    using s1 Cons.prems by (rule step_fieldNames)
  from Cons.IH [OF f1] obtain st' where "run f cs st1 = Some st'" "finalized (snd st')"
    "fieldNames (snd st') = fieldNames (snd st1)"
    by blast
  with s1 n1 show ?case by simp
qed

text \<open>
  A sequence of calls returns when the names already collected and the name insertions
  still to come are fewer than \<open>2 ^ 32\<close> together.
\<close>

lemma run_returns:
  "length (fieldNames (snd st)) + length (filter is_name cs) < 2 ^ 32 \<Longrightarrow>
     \<exists>st'. run f cs st = Some st'"
proof (induction cs arbitrary: st)
  case Nil
  then show ?case by simp
next
  case (Cons c cs)
  show ?case
  proof (cases "finalized (snd st)")
    case True
    from run_committed [OF True, of f "c # cs"] show ?thesis by blast
  next
    case False
    obtain out w where st: "st = (out, w)" by (cases st)
    show ?thesis
    proof (cases c)
      case (Ins_cstr n)
      have "length (fieldNames (snd (out, insert_cstr n w))) + length (filter is_name cs)
          < 2 ^ 32"
        using Cons.prems False st Ins_cstr by (simp add: insert_cstr_def)
      from Cons.IH [OF this] show ?thesis
        using st Ins_cstr by simp
    next
      case (Ins_string n)
      have "length (fieldNames (snd (out, insert_string n w))) + length (filter is_name cs)
          < 2 ^ 32"
        using Cons.prems False st Ins_string by (simp add: insert_string_def)
      from Cons.IH [OF this] show ?thesis
        using st Ins_string by simp
    next
      case (Ins_value v)
      have "length (fieldNames (snd (out, insert_value f v w))) + length (filter is_name cs)
          < 2 ^ 32"
        using Cons.prems False st Ins_value by (simp add: insert_value_def)
      from Cons.IH [OF this] show ?thesis
        using st Ins_value by simp
    next
      case Finalize
      have nf: "\<not> finalized w" and len: "length (fieldNames w) < 2 ^ 32"
        using Cons.prems False st by simp_all
      have s1: "step f st c =
          Some (out, w\<lparr>output_stream :=
                     \<lparr>flushed = contents (output_stream w)
                          @ concat (map (\<lambda>n. n @ '','') (fieldNames w)) @ [CHR 0x0A],
                      pending = []\<rparr>,
                   finalized := True\<rparr>)"
        using st Finalize by (simp add: finalize_header [OF nf len])
      from run_committed [of "(out, w\<lparr>output_stream :=
                     \<lparr>flushed = contents (output_stream w)
                          @ concat (map (\<lambda>n. n @ '','') (fieldNames w)) @ [CHR 0x0A],
                      pending = []\<rparr>,
                   finalized := True\<rparr>)" f cs]
      show ?thesis
        using s1 by auto
    qed
  qed
qed

lemma values_since_close_snoc:
  "values_since_close (cs @ [c]) =
     (if c = Finalize then 0
      else if is_value c then Suc (values_since_close cs) else values_since_close cs)"
  by (simp add: values_since_close_def)

lemma values_since_close_replicate:
  "values_since_close (Finalize # replicate n (Ins_value v)) = n"
proof -
  have "takeWhile (\<lambda>c. c \<noteq> Finalize) (replicate n (Ins_value v) @ [Finalize]) =
      replicate n (Ins_value v)"
    by (induction n) simp_all
  then show ?thesis by (simp add: values_since_close_def)
qed

text \<open>The counter of a writer that started fresh, after any sequence of calls that returns.\<close>

lemma run_idx:
  "run f cs (out, CSVWriter_new os) = Some st \<Longrightarrow>
     idx (snd st) = (if Finalize \<in> set cs then of_nat (values_since_close cs) else 0)"
proof (induction cs arbitrary: st rule: rev_induct)
  case Nil
  then show ?case by (auto simp: CSVWriter_new_def)
next
  case (snoc c cs)
  from snoc.prems obtain st1 where r: "run f cs (out, CSVWriter_new os) = Some st1"
    and s: "step f st1 c = Some st"
    by (auto simp: run_snoc split: option.splits)
  have fin: "finalized (snd st1) = (Finalize \<in> set cs)"
    using run_finalized [OF r] by (simp add: CSVWriter_new_def)
  have i1: "idx (snd st1) = (if Finalize \<in> set cs then of_nat (values_since_close cs) else 0)"
    using r by (rule snoc.IH)
  show ?case
    using step_idx [OF s] fin i1
    by (cases c) (simp_all add: values_since_close_snoc)
qed

text \<open>A writer that has collected 4294967296 names: how it is reached, and its \<^verbatim>\<open>finalize\<close>.\<close>

lemma run_to_crowded:
  assumes "name_of c = Some ''a''"
  shows "run f (replicate 4294967296 c) ([], CSVWriter_new empty_stream) =
    Some ([], crowded_writer)"
proof -
  have m: "map name_of (replicate 4294967296 c) = map Some (replicate 4294967296 ''a'')"
    by (simp only: map_replicate assms)
  have n: "\<not> finalized (CSVWriter_new empty_stream)"
    by (simp add: CSVWriter_new_def)
  have "run f (replicate 4294967296 c) ([], CSVWriter_new empty_stream) =
      Some ([], (CSVWriter_new empty_stream)
        \<lparr>fieldNames := fieldNames (CSVWriter_new empty_stream) @ replicate 4294967296 ''a''\<rparr>)"
    using m n by (rule run_names)
  also have "(CSVWriter_new empty_stream)
        \<lparr>fieldNames := fieldNames (CSVWriter_new empty_stream) @ replicate 4294967296 ''a''\<rparr>
      = crowded_writer"
    by (simp add: CSVWriter_new_def crowded_writer_def)
  finally show ?thesis .
qed

lemma crowded_hangs: "finalize crowded_writer = None"
proof -
  have "\<not> finalized crowded_writer"
    by (simp add: crowded_writer_def)
  moreover have "2 ^ 32 \<le> length (fieldNames crowded_writer)"
    by (simp add: crowded_writer_def)
  ultimately show ?thesis by (rule finalize_hangs)
qed

subsection \<open>The header line\<close>

text \<open>
  C1, as stated, fails: the loop that writes the header counts the names with an
  \<^verbatim>\<open>unsigned\<close>. After 4294967296 name insertions on a fresh writer the first
  \<^verbatim>\<open>finalize\<close> does not return, so no header line is completed and the writer does not
  reach the emitting state.
\<close>

theorem header_never_completed:
  "run sample_format (replicate 4294967296 (Ins_cstr ''a'') @ [Finalize])
     ([], CSVWriter_new empty_stream) = None"
proof -
  have "name_of (Ins_cstr ''a'') = Some ''a''"
    by simp
  then have "run sample_format (replicate 4294967296 (Ins_cstr ''a''))
      ([], CSVWriter_new empty_stream) = Some ([], crowded_writer)"
    by (rule run_to_crowded)
  then show ?thesis
    by (simp only: run_snoc option.case step.simps crowded_hangs)
qed

text \<open>
  C1, amended. Let \<open>cs\<close> be name insertions, through either overload, that carry the
  names \<open>ns\<close> in this order, fewer than \<open>2 ^ 32\<close> of them. Made on a fresh writer and
  followed by the first \<^verbatim>\<open>finalize\<close>, they return and add to the stream every name of
  \<open>ns\<close> followed by a comma, in insertion order, and then a newline; the stream is
  flushed, nothing is printed on the standard output, and the writer is in the emitting
  state with \<open>ns\<close> as its field names.
\<close>

theorem header_line:
  assumes "map name_of cs = map Some ns" and "length ns < 2 ^ 32"
  shows "run f (cs @ [Finalize]) ([], CSVWriter_new os) =
           Some ([], \<lparr>output_stream =
                   \<lparr>flushed = contents os @ concat (map (\<lambda>n. n @ '','') ns) @ [CHR 0x0A],
                    pending = []\<rparr>,
                 fieldNames = ns, finalized = True, idx = 0\<rparr>)"
proof -
  let ?w = "(CSVWriter_new os)\<lparr>fieldNames := fieldNames (CSVWriter_new os) @ ns\<rparr>"
  have "\<not> finalized (CSVWriter_new os)"
    by (simp add: CSVWriter_new_def)
  with assms(1) have r: "run f cs ([], CSVWriter_new os) = Some ([], ?w)"
    by (rule run_names)
  have nf: "\<not> finalized ?w"
    by (simp add: CSVWriter_new_def)
  have len: "length (fieldNames ?w) < 2 ^ 32"
    using assms(2) by (simp add: CSVWriter_new_def)
  show ?thesis
    by (simp add: run_snoc r finalize_header [OF nf len]) (simp add: CSVWriter_new_def)
qed

theorem header_line_witness:
  "map name_of [Ins_cstr ''a'', Ins_string ''bc''] = map Some [''a'', ''bc''] \<and>
   length [''a'', ''bc''] < (2::nat) ^ 32 \<and>
   run sample_format [Ins_cstr ''a'', Ins_string ''bc'', Finalize]
       ([], CSVWriter_new empty_stream) =
     Some ([], \<lparr>output_stream = \<lparr>flushed = ''a,bc,\<newline>'', pending = []\<rparr>,
           fieldNames = [''a'', ''bc''], finalized = True, idx = 0\<rparr>)"
proof -
  have h: "map name_of [Ins_cstr ''a'', Ins_string ''bc''] = map Some [''a'', ''bc'']"
    by simp
  have l: "length [''a'', ''bc''] < (2::nat) ^ 32"
    by simp
  have "run sample_format ([Ins_cstr ''a'', Ins_string ''bc''] @ [Finalize])
       ([], CSVWriter_new empty_stream) =
     Some ([], \<lparr>output_stream = \<lparr>flushed = ''a,bc,\<newline>'', pending = []\<rparr>,
           fieldNames = [''a'', ''bc''], finalized = True, idx = 0\<rparr>)"
    using header_line [OF h l, of sample_format empty_stream]
    by (simp add: contents_def empty_stream_def)
  with h l show ?thesis by simp
qed

subsection \<open>Closing a row whose value count differs from the field count\<close>

text \<open>
  C2. The claim asks for a warning whenever the counter differs from the number of field
  names. After the header with the one field \<open>a\<close> and the two values 1 and 2, the counter
  is 2 and there is one field name, and \<^verbatim>\<open>finalize\<close> prints nothing on the standard
  output; it ends the row \<open>1,2,\<close> with a newline and resets the counter.
\<close>

theorem surplus_values_not_reported:
  "run f [Ins_cstr ''a'', Finalize, Ins_value (V_int 1), Ins_value (V_int 2)]
     ([], CSVWriter_new empty_stream) =
     Some ([], \<lparr>output_stream = \<lparr>flushed = ''a,\<newline>'', pending = ''1,2,''\<rparr>,
           fieldNames = [''a''], finalized = True, idx = 2\<rparr>) \<and>
   finalize \<lparr>output_stream = \<lparr>flushed = ''a,\<newline>'', pending = ''1,2,''\<rparr>,
           fieldNames = [''a''], finalized = True, idx = 2\<rparr> =
     Some ([], \<lparr>output_stream = \<lparr>flushed = ''a,\<newline>1,2,\<newline>'', pending = []\<rparr>,
           fieldNames = [''a''], finalized = True, idx = 0\<rparr>)"
  by (simp add: CSVWriter_new_def empty_stream_def insert_cstr_def insert_value_def
      finalize_def write_names_all endl_def flush_def put_def dec_int_def dec_digit)

subsection \<open>The documented usage\<close>

text \<open>
  C3. On a stream that renders the doubles 1.5 and 2.5 as \<open>1.5\<close> and \<open>2.5\<close>: inserting
  the names Bandwidth and Latency, closing, inserting 1.5 and 15, closing, inserting 2.5
  and 25, closing, writes to an empty stream exactly three lines: the header
  \<open>Bandwidth,Latency,\<close>, then \<open>1.5,15,\<close>, then \<open>2.5,25,\<close>. Nothing is printed on the
  standard output.
\<close>

theorem usage_scenario:
  assumes "show_double f 0x3FF8000000000000 = ''1.5''"
    and "show_double f 0x4004000000000000 = ''2.5''"
  shows "run f [Ins_cstr ''Bandwidth'', Ins_cstr ''Latency'', Finalize,
                Ins_value (V_double 0x3FF8000000000000), Ins_value (V_int 15), Finalize,
                Ins_value (V_double 0x4004000000000000), Ins_value (V_int 25), Finalize]
           ([], CSVWriter_new empty_stream) =
         Some ([], \<lparr>output_stream =
                 \<lparr>flushed = ''Bandwidth,Latency,\<newline>1.5,15,\<newline>2.5,25,\<newline>'',
                  pending = []\<rparr>,
               fieldNames = [''Bandwidth'', ''Latency''], finalized = True, idx = 0\<rparr>)"
  using assms
  by (simp add: CSVWriter_new_def empty_stream_def insert_cstr_def insert_value_def
      finalize_def write_names_all endl_def flush_def put_def dec_int_def dec_15 dec_25)

theorem usage_scenario_witness:
  "show_double sample_format 0x3FF8000000000000 = ''1.5'' \<and>
   show_double sample_format 0x4004000000000000 = ''2.5'' \<and>
   run sample_format
       [Ins_cstr ''Bandwidth'', Ins_cstr ''Latency'', Finalize,
        Ins_value (V_double 0x3FF8000000000000), Ins_value (V_int 15), Finalize,
        Ins_value (V_double 0x4004000000000000), Ins_value (V_int 25), Finalize]
       ([], CSVWriter_new empty_stream) =
     Some ([], \<lparr>output_stream =
             \<lparr>flushed = ''Bandwidth,Latency,\<newline>1.5,15,\<newline>2.5,25,\<newline>'',
              pending = []\<rparr>,
           fieldNames = [''Bandwidth'', ''Latency''], finalized = True, idx = 0\<rparr>)"
proof -
  have a: "show_double sample_format 0x3FF8000000000000 = ''1.5''"
    by (simp add: sample_format_def)
  have b: "show_double sample_format 0x4004000000000000 = ''2.5''"
    by (simp add: sample_format_def)
  show ?thesis
    using a b usage_scenario [OF a b] by simp
qed

subsection \<open>The name builder\<close>

text \<open>
  C4. For each of the three overloads: if the length of the base name plus 4 characters
  for each index exceeds 64, the call reports the error and ends the process (through
  \<^verbatim>\<open>abort\<close> with one or two indices, through \<^verbatim>\<open>exit(-1)\<close> with three); otherwise it
  returns a string.
\<close>

theorem oversize_is_fatal:
  "(64 < length b + 4 * 1 \<longrightarrow>
      indexStr1 b i =
        Inl (ERROR ''Your string is too long for the stats, increase MAX_TMP_STR'', Abort))
   \<and> (length b + 4 * 1 \<le> 64 \<longrightarrow> (\<exists>s. indexStr1 b i = Inr s))
   \<and> (64 < length b + 4 * 2 \<longrightarrow>
      indexStr2 b i j =
        Inl (ERROR ''Your string is too long for the stats, increase MAX_TMP_STR'', Abort))
   \<and> (length b + 4 * 2 \<le> 64 \<longrightarrow> (\<exists>s. indexStr2 b i j = Inr s))
   \<and> (64 < length b + 4 * 3 \<longrightarrow>
      indexStr3 b i j k =
        Inl (ERROR ''Your string is too long for the stats, increase MAX_TMP_STR'',
             Exit (- 1)))
   \<and> (length b + 4 * 3 \<le> 64 \<longrightarrow> (\<exists>s. indexStr3 b i j k = Inr s))"
  by (simp add: indexStr1_def indexStr2_def indexStr3_def MAX_TMP_STR_def SINGLE_INDEX_LEN_def)

text \<open>The shortest base names that cross the threshold, and the longest that do not.\<close>

theorem oversize_is_fatal_witness:
  "indexStr1 (replicate 61 CHR ''a'') 0 =
     Inl (ERROR ''Your string is too long for the stats, increase MAX_TMP_STR'', Abort)
   \<and> (\<exists>s. indexStr1 (replicate 60 CHR ''a'') 0 = Inr s)
   \<and> indexStr2 (replicate 57 CHR ''a'') 0 0 =
     Inl (ERROR ''Your string is too long for the stats, increase MAX_TMP_STR'', Abort)
   \<and> (\<exists>s. indexStr2 (replicate 56 CHR ''a'') 0 0 = Inr s)
   \<and> indexStr3 (replicate 53 CHR ''a'') 0 0 0 =
     Inl (ERROR ''Your string is too long for the stats, increase MAX_TMP_STR'', Exit (- 1))
   \<and> (\<exists>s. indexStr3 (replicate 52 CHR ''a'') 0 0 0 = Inr s)"
  using oversize_is_fatal [of "replicate 61 CHR ''a''" 0 0 0]
    oversize_is_fatal [of "replicate 60 CHR ''a''" 0 0 0]
    oversize_is_fatal [of "replicate 57 CHR ''a''" 0 0 0]
    oversize_is_fatal [of "replicate 56 CHR ''a''" 0 0 0]
    oversize_is_fatal [of "replicate 53 CHR ''a''" 0 0 0]
    oversize_is_fatal [of "replicate 52 CHR ''a''" 0 0 0]
  by simp

text \<open>The three documented names are built as documented.\<close>

lemma documented_names:
  "indexStr1 ''Bandwidth'' 3 = Inr ''Bandwidth[3]'' \<and>
   indexStr2 ''Latency'' 0 2 = Inr ''Latency[0][2]'' \<and>
   indexStr3 ''X'' 1 2 3 = Inr ''X[1][2][3]''"
  by (simp add: indexStr1_def indexStr2_def indexStr3_def MAX_TMP_STR_def SINGLE_INDEX_LEN_def
      snprintf_def strndup_def dec_digit)

text \<open>
  An index of more than two digits is outside the budget of \<open>SINGLE_INDEX_LEN\<close>: the
  check does not look at the indices, and the name is cut.
\<close>

lemma index_beyond_budget:
  "indexStr1 (replicate 59 CHR ''a'') 1000 = Inr (replicate 59 CHR ''a'' @ ''[100'')"
  by (simp add: indexStr1_def MAX_TMP_STR_def SINGLE_INDEX_LEN_def snprintf_def strndup_def
      dec.simps)

text \<open>
  C5. The claim asks for the text \<open>base[i]\<close> whenever the capacity check passes. A base
  name of 60 characters with the two digit index 10 passes the check, \<open>60 + 4 \<le> 64\<close>, and
  stays within the budget of four characters that \<open>SINGLE_INDEX_LEN\<close> sets aside for a
  subscript \<^verbatim>\<open>[xx]\<close>. The formatted text has 64 characters, \<^verbatim>\<open>snprintf\<close> keeps 63 of
  them, and the call returns the name without its closing bracket.
\<close>

theorem closing_bracket_cut:
  "length (replicate 60 CHR ''a'') + SINGLE_INDEX_LEN \<le> MAX_TMP_STR \<and>
   indexStr1 (replicate 60 CHR ''a'') 10 = Inr (replicate 60 CHR ''a'' @ ''[10'') \<and>
   indexStr1 (replicate 60 CHR ''a'') 10 \<noteq> Inr (replicate 60 CHR ''a'' @ ''[10]'')"
  by (simp add: indexStr1_def MAX_TMP_STR_def SINGLE_INDEX_LEN_def snprintf_def strndup_def
      dec.simps)

subsection \<open>Insertions in the other phase\<close>

text \<open>
  C6. A value insertion, of any of the six supported types, made while the header is not
  committed returns the writer as it was: nothing is written to the stream, the counter
  is not incremented, no member changes, and nothing is printed on the standard output.
\<close>

theorem value_before_header:
  assumes "\<not> finalized w"
  shows "insert_value f v w = w \<and> step f (out, w) (Ins_value v) = Some (out, w)"
  using assms by (simp add: insert_value_def)

theorem value_before_header_witness:
  "\<not> finalized (CSVWriter_new empty_stream) \<and>
   insert_value sample_format (V_double 0x3FF8000000000000) (CSVWriter_new empty_stream) =
     CSVWriter_new empty_stream \<and>
   step sample_format ([], CSVWriter_new empty_stream) (Ins_value (V_double 0x3FF8000000000000)) =
     Some ([], CSVWriter_new empty_stream)"
proof -
  have h: "\<not> finalized (CSVWriter_new empty_stream)"
    by (simp add: CSVWriter_new_def)
  show ?thesis
    using h value_before_header [OF h, of sample_format "V_double 0x3FF8000000000000" "[]"]
    by simp
qed

text \<open>
  C7. A name insertion, through either overload, made after the header is committed
  returns the writer as it was. Consequently every further sequence of calls on a writer
  whose header is committed returns, and the field names are the same after it.
\<close>

theorem name_after_header:
  assumes "finalized w"
  shows "insert_cstr name w = w \<and> insert_string name w = w
    \<and> (\<exists>st. run f cs (out, w) = Some st \<and> fieldNames (snd st) = fieldNames w)"
  using assms run_committed [of "(out, w)" f cs]
  by (auto simp: insert_cstr_def insert_string_def)

theorem name_after_header_witness:
  "finalized committed_writer
   \<and> insert_cstr ''b'' committed_writer = committed_writer
   \<and> insert_string ''b'' committed_writer = committed_writer
   \<and> (\<exists>st. run sample_format
        [Ins_cstr ''b'', Ins_value (V_int 1), Finalize, Ins_string ''c'']
        ([], committed_writer) = Some st \<and> fieldNames (snd st) = [''a''])"
proof -
  have h: "finalized committed_writer"
    by (simp add: committed_writer_def)
  have n: "fieldNames committed_writer = [''a'']"
    by (simp add: committed_writer_def)
  show ?thesis
    using h n name_after_header [OF h, of "''b''" sample_format
        "[Ins_cstr ''b'', Ins_value (V_int 1), Finalize, Ins_string ''c'']" "[]"]
    by (simp del: run.simps)
qed

subsection \<open>The two states\<close>

text \<open>
  C8, as stated, fails: a fresh writer that has received 4294967296 name insertions is
  still collecting, and its first \<^verbatim>\<open>finalize\<close> does not return, so this call does not
  move the writer to the emitting state.
\<close>

theorem first_close_hangs:
  "run sample_format (replicate 4294967296 (Ins_string ''a''))
     ([], CSVWriter_new empty_stream) = Some ([], crowded_writer)
   \<and> finalized crowded_writer = False
   \<and> finalize crowded_writer = None"
proof -
  have "name_of (Ins_string ''a'') = Some ''a''"
    by simp
  then have "run sample_format (replicate 4294967296 (Ins_string ''a''))
      ([], CSVWriter_new empty_stream) = Some ([], crowded_writer)"
    by (rule run_to_crowded)
  moreover have "finalized crowded_writer = False"
    by (simp add: crowded_writer_def)
  ultimately show ?thesis
    using crowded_hangs by simp
qed

text \<open>
  C8, amended. The state of the writer is the flag \<open>finalized\<close>: collecting when it is
  false, emitting when it is true. A fresh writer is collecting. \<^verbatim>\<open>finalize\<close> on a
  writer that is emitting, or that has collected fewer than \<open>2 ^ 32\<close> names, returns and
  leaves the writer emitting. An emitting writer is emitting after any sequence of calls,
  all of which return. A sequence of calls on a fresh writer with fewer than \<open>2 ^ 32\<close>
  name insertions returns; and whenever a sequence of calls on a fresh writer returns, the
  writer is emitting exactly when \<^verbatim>\<open>finalize\<close> has been called.
\<close>

theorem two_states:
  "\<not> finalized (CSVWriter_new os)
   \<and> (finalized w \<or> length (fieldNames w) < 2 ^ 32 \<longrightarrow>
        (\<exists>d w'. finalize w = Some (d, w') \<and> finalized w'))
   \<and> (finalized w \<longrightarrow> (\<exists>st. run f cs (out, w) = Some st \<and> finalized (snd st)))
   \<and> (length (filter is_name cs) < 2 ^ 32 \<longrightarrow>
        (\<exists>st. run f cs (out, CSVWriter_new os) = Some st))
   \<and> (run f cs (out, CSVWriter_new os) = Some st \<longrightarrow>
        finalized (snd st) = (Finalize \<in> set cs))"
proof -
  have a: "\<not> finalized (CSVWriter_new os)"
    by (simp add: CSVWriter_new_def)
  have b: "finalized w \<or> length (fieldNames w) < 2 ^ 32 \<longrightarrow>
      (\<exists>d w'. finalize w = Some (d, w') \<and> finalized w')"
  proof (cases "finalized w")
    case True
    then show ?thesis by (simp add: finalize_committed)
  next
    case False
    then show ?thesis by (auto simp: finalize_header)
  qed
  have c: "finalized w \<longrightarrow> (\<exists>st. run f cs (out, w) = Some st \<and> finalized (snd st))"
    using run_committed [of "(out, w)" f cs] by auto
  have d: "length (filter is_name cs) < 2 ^ 32 \<longrightarrow>
      (\<exists>st. run f cs (out, CSVWriter_new os) = Some st)"
    using run_returns [of "(out, CSVWriter_new os)" cs f] by (simp add: CSVWriter_new_def)
  have e: "run f cs (out, CSVWriter_new os) = Some st \<longrightarrow>
      finalized (snd st) = (Finalize \<in> set cs)"
    using run_finalized [of f cs "(out, CSVWriter_new os)" st] by (simp add: CSVWriter_new_def)
  from a b c d e show ?thesis by blast
qed

theorem two_states_witness:
  "\<not> finalized (CSVWriter_new empty_stream)
   \<and> length (fieldNames (CSVWriter_new empty_stream)) < (2::nat) ^ 32
   \<and> (\<exists>d w'. finalize (CSVWriter_new empty_stream) = Some (d, w') \<and> finalized w')
   \<and> finalized committed_writer
   \<and> (\<exists>st. run sample_format [Ins_cstr ''b'', Ins_value (V_int 1), Finalize]
        ([], committed_writer) = Some st \<and> finalized (snd st))
   \<and> length (filter is_name [Ins_cstr ''b'', Finalize, Ins_value (V_int 1)]) < (2::nat) ^ 32
   \<and> (\<exists>st. run sample_format [Ins_cstr ''b'', Finalize, Ins_value (V_int 1)]
        ([], CSVWriter_new empty_stream) = Some st)
   \<and> run sample_format [Ins_cstr ''b'', Ins_value (V_int 1)] ([], CSVWriter_new empty_stream) =
        Some ([], \<lparr>output_stream = empty_stream, fieldNames = [''b''],
                   finalized = False, idx = 0\<rparr>)
   \<and> finalized (snd ([]::string, \<lparr>output_stream = empty_stream, fieldNames = [''b''],
                   finalized = False, idx = 0\<rparr>))
       = (Finalize \<in> set [Ins_cstr ''b'', Ins_value (V_int 1)])"
proof -
  have h: "finalized committed_writer"
    by (simp add: committed_writer_def)
  have l: "length (fieldNames (CSVWriter_new empty_stream)) < (2::nat) ^ 32"
    by (simp add: CSVWriter_new_def)
  have r: "run sample_format [Ins_cstr ''b'', Ins_value (V_int 1)]
      ([], CSVWriter_new empty_stream) =
        Some ([], \<lparr>output_stream = empty_stream, fieldNames = [''b''],
                   finalized = False, idx = 0\<rparr>)"
    by (simp add: CSVWriter_new_def insert_cstr_def insert_value_def)
  show ?thesis
    using h l r
      two_states [of empty_stream "CSVWriter_new empty_stream" sample_format
        "[Ins_cstr ''b'', Ins_value (V_int 1)]" "[]"
        "([], \<lparr>output_stream = empty_stream, fieldNames = [''b''],
                   finalized = False, idx = 0\<rparr>)"]
      two_states [of empty_stream committed_writer sample_format
        "[Ins_cstr ''b'', Ins_value (V_int 1), Finalize]" "[]"]
      two_states [of empty_stream committed_writer sample_format
        "[Ins_cstr ''b'', Finalize, Ins_value (V_int 1)]" "[]"]
    by simp
qed

subsection \<open>The value counter\<close>

text \<open>
  C9, as stated, fails: the counter is an \<^verbatim>\<open>unsigned\<close>. After the header is committed
  and 4294967296 values are inserted with no \<^verbatim>\<open>finalize\<close> in between, the calls have
  returned, the writer is emitting, the number of values inserted since the last
  \<^verbatim>\<open>finalize\<close> is 4294967296, and the counter is 0.
\<close>

theorem counter_wraps:
  "values_since_close (Finalize # replicate 4294967296 (Ins_value (V_int 0))) = 4294967296
   \<and> map_option (finalized \<circ> snd) (run sample_format
         (Finalize # replicate 4294967296 (Ins_value (V_int 0)))
         ([], CSVWriter_new empty_stream)) = Some True
   \<and> map_option (unat \<circ> idx \<circ> snd) (run sample_format
         (Finalize # replicate 4294967296 (Ins_value (V_int 0)))
         ([], CSVWriter_new empty_stream)) = Some 0"
proof -
  let ?cs = "Finalize # replicate 4294967296 (Ins_value (V_int 0))"
  have n: "values_since_close ?cs = 4294967296"
    by (rule values_since_close_replicate)
  have "filter is_name ?cs = []"
    by (simp only: filter.simps is_name.simps filter_replicate if_False)
  then have "length (fieldNames (snd ([]::string, CSVWriter_new empty_stream)))
      + length (filter is_name ?cs) < 2 ^ 32"
    by (simp add: CSVWriter_new_def)
  then obtain st where r: "run sample_format ?cs ([], CSVWriter_new empty_stream) = Some st"
    using run_returns by blast
  have "idx (snd st) = (if Finalize \<in> set ?cs then of_nat (values_since_close ?cs) else 0)"
    using r by (rule run_idx)
  also have "\<dots> = (of_nat 4294967296 :: 32 word)"
    by (simp only: n list.set_intros if_True)
  also have "\<dots> = 0"
    by simp
  finally have i: "idx (snd st) = 0" .
  have "finalized (snd st) = (finalized (snd ([]::string, CSVWriter_new empty_stream))
      \<or> Finalize \<in> set ?cs)"
    using r by (rule run_finalized)
  then have f: "finalized (snd st)"
    by (simp only: list.set_intros simp_thms)
  from n i f show ?thesis
    by (simp only: r option.map comp_apply unat_0 simp_thms)
qed

text \<open>
  C9, amended. The counter is zero in a fresh writer and zero right after every
  \<^verbatim>\<open>finalize\<close>; once the header is committed \<^verbatim>\<open>finalize\<close> always returns, and a value
  insertion adds one to the counter in 32-bit unsigned arithmetic. So for a writer that
  started fresh the counter is zero as long as \<^verbatim>\<open>finalize\<close> has not been called, and
  afterwards it equals, modulo \<open>2 ^ 32\<close>, the number of values inserted since the last
  \<^verbatim>\<open>finalize\<close>. The calls return when fewer than \<open>2 ^ 32\<close> of them insert a name.
\<close>

theorem value_counter:
  "idx (CSVWriter_new os) = 0
   \<and> (run f (cs @ [Finalize]) (out, CSVWriter_new os) = Some st \<longrightarrow> idx (snd st) = 0)
   \<and> (finalized w \<longrightarrow> (\<exists>d w'. finalize w = Some (d, w') \<and> idx w' = 0))
   \<and> (finalized w \<longrightarrow> idx (insert_value f v w) = idx w + 1)
   \<and> (run f cs (out, CSVWriter_new os) = Some st' \<and> Finalize \<notin> set cs \<longrightarrow>
        idx (snd st') = 0)
   \<and> (run f cs (out, CSVWriter_new os) = Some st' \<and> Finalize \<in> set cs \<longrightarrow>
        unat (idx (snd st')) = values_since_close cs mod 2 ^ 32)
   \<and> (length (filter is_name cs) < 2 ^ 32 \<longrightarrow>
        (\<exists>st. run f cs (out, CSVWriter_new os) = Some st))"
proof -
  have a: "idx (CSVWriter_new os) = 0"
    by (simp add: CSVWriter_new_def)
  have b: "run f (cs @ [Finalize]) (out, CSVWriter_new os) = Some st \<longrightarrow> idx (snd st) = 0"
    using run_idx [of f "cs @ [Finalize]" out os st] by (simp add: values_since_close_snoc)
  have c: "finalized w \<longrightarrow> (\<exists>d w'. finalize w = Some (d, w') \<and> idx w' = 0)"
    by (simp add: finalize_committed)
  have d: "finalized w \<longrightarrow> idx (insert_value f v w) = idx w + 1"
    by (simp add: insert_value_def)
  have e: "run f cs (out, CSVWriter_new os) = Some st' \<and> Finalize \<notin> set cs \<longrightarrow>
      idx (snd st') = 0"
    using run_idx [of f cs out os st'] by simp
  have g: "run f cs (out, CSVWriter_new os) = Some st' \<and> Finalize \<in> set cs \<longrightarrow>
      unat (idx (snd st')) = values_since_close cs mod 2 ^ 32"
    using run_idx [of f cs out os st'] by (simp add: unat_of_nat)
  have h: "length (filter is_name cs) < 2 ^ 32 \<longrightarrow>
      (\<exists>st. run f cs (out, CSVWriter_new os) = Some st)"
    using run_returns [of "(out, CSVWriter_new os)" cs f] by (simp add: CSVWriter_new_def)
  from a b c d e g h show ?thesis by blast
qed

theorem value_counter_witness:
  "idx (CSVWriter_new empty_stream) = 0
   \<and> run sample_format ([Ins_cstr ''a'', Finalize, Ins_value (V_int 1), Ins_value (V_int 2)]
        @ [Finalize]) ([], CSVWriter_new empty_stream) =
       Some ([], \<lparr>output_stream = \<lparr>flushed = ''a,\<newline>1,2,\<newline>'', pending = []\<rparr>,
           fieldNames = [''a''], finalized = True, idx = 0\<rparr>)
   \<and> finalized committed_writer
   \<and> (\<exists>d w'. finalize committed_writer = Some (d, w') \<and> idx w' = 0)
   \<and> idx (insert_value sample_format (V_int 1) committed_writer) = 1
   \<and> run sample_format [Ins_cstr ''a'', Finalize, Ins_value (V_int 1), Ins_value (V_int 2)]
        ([], CSVWriter_new empty_stream) =
       Some ([], \<lparr>output_stream = \<lparr>flushed = ''a,\<newline>'', pending = ''1,2,''\<rparr>,
           fieldNames = [''a''], finalized = True, idx = 2\<rparr>)
   \<and> Finalize \<in> set [Ins_cstr ''a'', Finalize, Ins_value (V_int 1), Ins_value (V_int 2)]
   \<and> values_since_close
        [Ins_cstr ''a'', Finalize, Ins_value (V_int 1), Ins_value (V_int 2)] mod 2 ^ 32 = 2
   \<and> length (filter is_name
        [Ins_cstr ''a'', Finalize, Ins_value (V_int 1), Ins_value (V_int 2)]) < (2::nat) ^ 32"
proof -
  let ?cs = "[Ins_cstr ''a'', Finalize, Ins_value (V_int 1), Ins_value (V_int 2)]"
  let ?st = "([]::string, \<lparr>output_stream = \<lparr>flushed = ''a,\<newline>'', pending = ''1,2,''\<rparr>,
           fieldNames = [''a''], finalized = True, idx = 2\<rparr>)"
  let ?closed = "([]::string, \<lparr>output_stream = \<lparr>flushed = ''a,\<newline>1,2,\<newline>'', pending = []\<rparr>,
           fieldNames = [''a''], finalized = True, idx = 0\<rparr>)"
  have h: "finalized committed_writer"
    by (simp add: committed_writer_def)
  have z: "idx committed_writer = 0"
    by (simp add: committed_writer_def)
  have r: "run sample_format ?cs ([], CSVWriter_new empty_stream) = Some ?st"
    by (simp add: CSVWriter_new_def empty_stream_def insert_cstr_def insert_value_def
      finalize_def write_names_all endl_def flush_def put_def dec_int_def dec_digit)
  have r0: "run sample_format (?cs @ [Finalize]) ([], CSVWriter_new empty_stream) = Some ?closed"
    by (simp add: CSVWriter_new_def empty_stream_def insert_cstr_def insert_value_def
      finalize_def write_names_all endl_def flush_def put_def dec_int_def dec_digit)
  have n: "values_since_close ?cs = 2"
    by (simp add: values_since_close_def)
  have m: "Finalize \<in> set ?cs"
    by simp
  have l: "length (filter is_name ?cs) < (2::nat) ^ 32"
    by simp
  note t = value_counter
    [of empty_stream sample_format ?cs "[]" ?closed committed_writer "V_int 1" ?st]
  have c0: "idx (CSVWriter_new empty_stream) = 0"
    using t by blast
  have c1: "\<exists>d w'. finalize committed_writer = Some (d, w') \<and> idx w' = 0"
    using t h by blast
  have "idx (insert_value sample_format (V_int 1) committed_writer) = idx committed_writer + 1"
    using t h by blast
  then have c2: "idx (insert_value sample_format (V_int 1) committed_writer) = 1"
    by (simp add: z)
  have "unat (idx (snd ?st)) = values_since_close ?cs mod 2 ^ 32"
    using t r m by blast
  then have c3: "values_since_close ?cs mod 2 ^ 32 = 2"
    by simp
  show ?thesis
    by (intro conjI c0 r0 h c1 c2 r m c3 l)
qed

subsection \<open>A header with no field names\<close>

text \<open>
  C10. \<^verbatim>\<open>finalize\<close> on a fresh writer, which has no field names, commits the header:
  it adds only a newline to the stream, leaves the stream flushed, prints nothing on the
  standard output, and the writer is in the emitting state.
\<close>

theorem empty_header:
  "finalize (CSVWriter_new os) =
     Some ([], \<lparr>output_stream = \<lparr>flushed = flushed os @ pending os @ [CHR 0x0A], pending = []\<rparr>,
           fieldNames = [], finalized = True, idx = 0\<rparr>)"
  by (simp add: finalize_def write_names_all CSVWriter_new_def endl_def flush_def put_def)

end
